theory Spec2Isabelle
  imports Main
begin

section \<open>Data model\<close>

text \<open>
  Instants are JavaScript time values: milliseconds since the epoch, as \<open>new Date(x)\<close>
  yields them. A \<open>Date\<close> whose time value is NaN (\<open>new Date(undefined)\<close>, or an
  unparseable string) is \<open>None\<close>; every relational comparison with it is false.
  The ISO strings that \<open>toISOString()\<close> writes parse back to the same instant, so a stored
  string is represented by the instant it denotes.
\<close>

type_synonym instant = int

text \<open>The user object of the Helix API, as \<open>addStreamer\<close> reads it.\<close>

record twitch_user =
  user_id :: string
  login :: string
  display_name :: string
  profile_image_url :: string

text \<open>
  The stream object of the Helix API (\<open>data.data[0]\<close> of \<open>checkIfLive\<close>).
  \<open>viewer_count\<close> is \<open>None\<close> when the field is missing (\<open>.toString()\<close> on it then
  throws); \<open>started_at\<close> is the time value of \<open>new Date(streamInfo.started_at)\<close>.
\<close>

record stream_info =
  title :: string
  game_name :: string
  thumbnail_url :: string
  viewer_count :: "nat option"
  started_at :: "instant option"

record current_stream =
  cs_title :: string
  gameName :: string
  thumbnailUrl :: string
  viewerCount :: "nat option"
  startedAt :: "instant option"

text \<open>An entry of \<open>storage.streamers\<close>; an absent \<open>currentStream\<close> property is \<open>None\<close>.\<close>

record streamer =
  sid :: string
  username :: string
  displayName :: string
  profileImageUrl :: string
  addedAt :: instant
  isLive :: bool
  currentStream :: "current_stream option"

text \<open>
  The content of \<open>streamers.json\<close>. Every function of storage.js reads the whole record,
  changes it and writes it back, so the file is the state that is passed along.
  \<open>lastNotified\<close> is a JavaScript object used as a dictionary from identifier to ISO string;
  the strings stored by \<open>markNotified\<close> are non-empty, hence truthy exactly when present.
\<close>

record storage =
  streamers :: "streamer list"
  lastNotified :: "string \<rightharpoonup> instant"

definition initStorage :: storage where
  "initStorage = \<lparr>streamers = [], lastNotified = Map.empty\<rparr>"

section \<open>storage.js\<close>

text \<open>\<open>addStreamer(streamer)\<close>; the second argument is the reading of \<open>new Date()\<close>.\<close>

definition addStreamer :: "twitch_user \<Rightarrow> instant \<Rightarrow> storage \<Rightarrow> bool \<times> storage" where
  "addStreamer u t st =
     (if list_ex (\<lambda>s. sid s = user_id u) (streamers st) then (False, st)
      else (True, st\<lparr>streamers := streamers st @
              [\<lparr>sid = user_id u, username = login u, displayName = display_name u,
                profileImageUrl = profile_image_url u, addedAt = t, isLive = False,
                currentStream = None\<rparr>]\<rparr>))"

definition removeStreamer :: "string \<Rightarrow> storage \<Rightarrow> bool \<times> storage" where
  "removeStreamer i st =
     (let initialLength = length (streamers st);
          kept = filter (\<lambda>s. sid s \<noteq> i) (streamers st);
          ledger = (if lastNotified st i \<noteq> None then (lastNotified st)(i := None)
                    else lastNotified st)
      in (length kept < initialLength, \<lparr>streamers = kept, lastNotified = ledger\<rparr>))"

definition getAllStreamers :: "storage \<Rightarrow> streamer list" where
  "getAllStreamers st = streamers st"

text \<open>Lines 112 to 125 of \<open>updateStreamerStatus\<close>: the mutation of the entry found.\<close>

definition setStatus :: "bool \<Rightarrow> stream_info option \<Rightarrow> streamer \<Rightarrow> streamer" where
  "setStatus live streamInfo s =
     (case streamInfo of
        Some info \<Rightarrow>
          if live then
            s\<lparr>isLive := live,
              currentStream := Some \<lparr>cs_title = title info, gameName = game_name info,
                thumbnailUrl = thumbnail_url info, viewerCount = viewer_count info,
                startedAt = started_at info\<rparr>\<rparr>
          else s\<lparr>isLive := live, currentStream := None\<rparr>
      | None \<Rightarrow> s\<lparr>isLive := live, currentStream := None\<rparr>)"

text \<open>\<open>find\<close> returns the first entry with the identifier; only that object is mutated.\<close>

fun update_first :: "string \<Rightarrow> (streamer \<Rightarrow> streamer) \<Rightarrow> streamer list \<Rightarrow> streamer list" where
  "update_first i f [] = []"
| "update_first i f (s # ss) = (if sid s = i then f s # ss else s # update_first i f ss)"

definition updateStreamerStatus ::
  "string \<Rightarrow> bool \<Rightarrow> stream_info option \<Rightarrow> storage \<Rightarrow> streamer option \<times> storage" where
  "updateStreamerStatus i live streamInfo st =
     (case find (\<lambda>s. sid s = i) (streamers st) of
        None \<Rightarrow> (None, st)
      | Some s \<Rightarrow>
          (Some (setStatus live streamInfo s),
           st\<lparr>streamers := update_first i (setStatus live streamInfo) (streamers st)\<rparr>))"

text \<open>
  \<open>shouldNotify(streamerId, streamStartTime)\<close>: true without a ledger entry; otherwise the
  comparison \<open>streamStart > lastNotifyTime\<close> of two dates, false when the stream start is
  an invalid date.
\<close>

definition shouldNotify :: "string \<Rightarrow> instant option \<Rightarrow> storage \<Rightarrow> bool" where
  "shouldNotify i streamStartTime st =
     (case lastNotified st i of
        None \<Rightarrow> True
      | Some lastNotifyTime \<Rightarrow>
          (case streamStartTime of
             None \<Rightarrow> False
           | Some streamStart \<Rightarrow> streamStart > lastNotifyTime))"

text \<open>\<open>markNotified(streamerId)\<close>; the second argument is the reading of \<open>new Date()\<close>.\<close>

definition markNotified :: "string \<Rightarrow> instant \<Rightarrow> storage \<Rightarrow> storage" where
  "markNotified i t st = st\<lparr>lastNotified := (lastNotified st)(i \<mapsto> t)\<rparr>"

section \<open>The sweep (index.js)\<close>

datatype js_error = FetchError | TypeError | ValidationError | DiscordError | StorageError

text \<open>
  What one guild offers to \<open>sendLiveNotification\<close>: the outcome of the channel lookup
  (which may throw, find nothing, or find a channel) and whether \<open>channel.send\<close> resolves.
\<close>

datatype channel_lookup = LookupThrows | NoChannel | Channel string

record guild =
  guildName :: string
  lookup :: channel_lookup
  sendResolves :: bool

datatype delivery = Sent string | NoSuitableChannel string | SendingFailed string js_error

text \<open>
  \<open>setThumbnail\<close> and \<open>setImage\<close> of the embed builder validate their argument and throw
  on a string that is not a URL. Helix returns a URL or the empty string, and the empty
  string is the one that is refused.
\<close>

definition imageUrlAccepted :: "string \<Rightarrow> bool" where
  "imageUrlAccepted u = (u \<noteq> [])"

text \<open>
  The body of the inner \<open>try\<close> of \<open>sendLiveNotification\<close>, for one guild: the channel
  lookup, the construction of the embed in the order of the call chain
  (\<open>setThumbnail\<close>, \<open>viewer_count.toString()\<close>, \<open>setImage\<close>, and \<open>setTimestamp\<close>, which
  throws on an invalid date), then \<open>channel.send\<close>.
\<close>

definition notifyGuild :: "streamer \<Rightarrow> stream_info \<Rightarrow> guild \<Rightarrow> js_error + delivery" where
  "notifyGuild s info g =
     (case lookup g of
        LookupThrows \<Rightarrow> Inl TypeError
      | NoChannel \<Rightarrow> Inr (NoSuitableChannel (guildName g))
      | Channel c \<Rightarrow>
          if \<not> imageUrlAccepted (profileImageUrl s) then Inl ValidationError
          else (case viewer_count info of
             None \<Rightarrow> Inl TypeError
           | Some v \<Rightarrow>
               if \<not> imageUrlAccepted (thumbnail_url info) then Inl ValidationError
               else if started_at info = None then Inl ValidationError
               else if sendResolves g then Inr (Sent (guildName g))
               else Inl DiscordError))"

text \<open>The loop over the guilds, each iteration inside its own \<open>try\<close>/\<open>catch\<close>.\<close>

fun notifyGuilds :: "streamer \<Rightarrow> stream_info \<Rightarrow> guild list \<Rightarrow> js_error + delivery list" where
  "notifyGuilds s info [] = Inr []"
| "notifyGuilds s info (g # gs) =
     (let d = (case notifyGuild s info g of
                 Inl err \<Rightarrow> SendingFailed (guildName g) err
               | Inr d \<Rightarrow> d)
      in case notifyGuilds s info gs of
           Inl err \<Rightarrow> Inl err
         | Inr ds \<Rightarrow> Inr (d # ds))"

text \<open>
  \<open>sendLiveNotification(streamer, streamInfo)\<close>. The first argument is the outcome of
  \<open>client.guilds.cache.values()\<close>. The result is \<open>Inl\<close> when the promise rejects, else the
  list of what happened in each guild (empty when the outer \<open>catch\<close> ran).
\<close>

definition sendLiveNotification ::
  "js_error + guild list \<Rightarrow> streamer \<Rightarrow> stream_info \<Rightarrow> js_error + delivery list" where
  "sendLiveNotification guilds s info =
     (case (case guilds of Inl err \<Rightarrow> Inl err | Inr gs \<Rightarrow> notifyGuilds s info gs) of
        Inl err \<Rightarrow> Inr []
      | Inr ds \<Rightarrow> Inr ds)"

text \<open>
  What the outside world answers while one streamer is processed: the outcome of
  \<open>checkIfLive(streamer.id)\<close> (\<open>Inl\<close> when it throws, \<open>Inr None\<close> when not live), the
  guilds of the client, and the reading of \<open>new Date()\<close> inside \<open>markNotified\<close>.
\<close>

record env =
  liveCheck :: "js_error + stream_info option"
  guilds :: "js_error + guild list"
  clock :: instant

datatype event = Notified string "delivery list" | CheckError string js_error

text \<open>
  The body of the \<open>for\<close> loop of \<open>checkAllStreamers\<close>, with its \<open>try\<close>/\<open>catch\<close>, when
  the three calls into storage.js return. \<open>s\<close> is the entry of the list read at the
  start of the sweep. The body with storage calls that throw is \<open>processStreamer_io\<close>
  below.
\<close>

definition processStreamer :: "streamer \<Rightarrow> env \<Rightarrow> storage \<Rightarrow> storage \<times> event list" where
  "processStreamer s e st =
     (case liveCheck e of
        Inl err \<Rightarrow> (st, [CheckError (displayName s) err])
      | Inr streamInfo \<Rightarrow>
          (let wasLive = isLive s;
               live = (streamInfo \<noteq> None);
               st1 = snd (updateStreamerStatus (sid s) live streamInfo st)
           in case streamInfo of
                None \<Rightarrow> (st1, [])
              | Some info \<Rightarrow>
                  if \<not> wasLive \<and> shouldNotify (sid s) (started_at info) st1 then
                    (case sendLiveNotification (guilds e) s info of
                       Inl err \<Rightarrow> (st1, [CheckError (displayName s) err])
                     | Inr ds \<Rightarrow> (markNotified (sid s) (clock e) st1, [Notified (sid s) ds]))
                  else (st1, [])))"

fun sweepLoop :: "(streamer \<times> env) list \<Rightarrow> storage \<Rightarrow> storage \<times> event list" where
  "sweepLoop [] st = (st, [])"
| "sweepLoop ((s, e) # rest) st =
     (let (st1, ev1) = processStreamer s e st;
          (st2, ev2) = sweepLoop rest st1
      in (st2, ev1 @ ev2))"

text \<open>
  \<open>checkAllStreamers()\<close>: the list is read once; the streamer at position \<open>k\<close> of it meets
  the world \<open>w k\<close>.
\<close>

definition checkAllStreamers :: "(nat \<Rightarrow> env) \<Rightarrow> storage \<Rightarrow> storage \<times> event list" where
  "checkAllStreamers w st =
     (let ss = getAllStreamers st
      in if length ss = 0 then (st, [])
         else sweepLoop (zip ss (map w [0..<length ss])) st)"

subsection \<open>Storage calls that throw\<close>

text \<open>
  \<open>updateStreamerStatus\<close>, \<open>shouldNotify\<close> and \<open>markNotified\<close> read the file
  (\<open>readFileSync\<close>, \<open>JSON.parse\<close>) and the first and the last write it
  (\<open>writeFileSync\<close>); each of these can throw, and inside the loop the error reaches the
  \<open>catch\<close> of the body. A fault names the error a call throws, \<open>None\<close> when the call
  returns. A call that throws is taken to leave the file as it was: the error comes from
  the read, or from the write before the file is changed.
\<close>

record storage_faults =
  updateThrows :: "js_error option"
  shouldNotifyThrows :: "js_error option"
  markNotifiedThrows :: "js_error option"

definition no_faults :: storage_faults where
  "no_faults = \<lparr>updateThrows = None, shouldNotifyThrows = None, markNotifiedThrows = None\<rparr>"

text \<open>
  The body of the loop in full. \<open>shouldNotify\<close> is called only when the streamer is live
  and was not (the \<open>&&\<close> chain); when \<open>markNotified\<close> throws, the notification has
  already been sent.
\<close>

definition processStreamer_io ::
  "storage_faults \<Rightarrow> streamer \<Rightarrow> env \<Rightarrow> storage \<Rightarrow> storage \<times> event list" where
  "processStreamer_io f s e st =
     (case liveCheck e of
        Inl err \<Rightarrow> (st, [CheckError (displayName s) err])
      | Inr streamInfo \<Rightarrow>
          (case updateThrows f of
             Some err \<Rightarrow> (st, [CheckError (displayName s) err])
           | None \<Rightarrow>
               (let wasLive = isLive s;
                    live = (streamInfo \<noteq> None);
                    st1 = snd (updateStreamerStatus (sid s) live streamInfo st)
                in case streamInfo of
                     None \<Rightarrow> (st1, [])
                   | Some info \<Rightarrow>
                       if wasLive then (st1, [])
                       else
                         (case shouldNotifyThrows f of
                            Some err \<Rightarrow> (st1, [CheckError (displayName s) err])
                          | None \<Rightarrow>
                              if shouldNotify (sid s) (started_at info) st1 then
                                (case sendLiveNotification (guilds e) s info of
                                   Inl err \<Rightarrow> (st1, [CheckError (displayName s) err])
                                 | Inr ds \<Rightarrow>
                                     (case markNotifiedThrows f of
                                        Some err \<Rightarrow>
                                          (st1, [Notified (sid s) ds, CheckError (displayName s) err])
                                      | None \<Rightarrow>
                                          (markNotified (sid s) (clock e) st1,
                                           [Notified (sid s) ds])))
                              else (st1, [])))))"

fun sweepLoop_io ::
  "(streamer \<times> storage_faults \<times> env) list \<Rightarrow> storage \<Rightarrow> storage \<times> event list" where
  "sweepLoop_io [] st = (st, [])"
| "sweepLoop_io ((s, f, e) # rest) st =
     (let (st1, ev1) = processStreamer_io f s e st;
          (st2, ev2) = sweepLoop_io rest st1
      in (st2, ev1 @ ev2))"

text \<open>The sweep, where the streamer at position \<open>k\<close> meets the faults and the world \<open>w k\<close>.\<close>

definition checkAllStreamers_io ::
  "(nat \<Rightarrow> storage_faults \<times> env) \<Rightarrow> storage \<Rightarrow> storage \<times> event list" where
  "checkAllStreamers_io w st =
     (let ss = getAllStreamers st
      in if length ss = 0 then (st, [])
         else sweepLoop_io (zip ss (map w [0..<length ss])) st)"

definition without_faults :: "(nat \<Rightarrow> env) \<Rightarrow> nat \<Rightarrow> storage_faults \<times> env" where
  "without_faults w k = (no_faults, w k)"

section \<open>Vocabulary of the properties\<close>

text \<open>
  The store operations as data, so that a property can speak of every sequence of them.
  \<open>Add\<close> carries the clock reading that becomes \<open>addedAt\<close>.
\<close>

datatype store_op = Add twitch_user instant | Remove string
  | SetLiveState string bool "stream_info option"

fun apply_op :: "store_op \<Rightarrow> storage \<Rightarrow> storage" where
  "apply_op (Add u t) st = snd (addStreamer u t st)"
| "apply_op (Remove i) st = snd (removeStreamer i st)"
| "apply_op (SetLiveState i live streamInfo) st = snd (updateStreamerStatus i live streamInfo st)"

fun run_ops :: "store_op list \<Rightarrow> storage \<Rightarrow> storage" where
  "run_ops [] st = st"
| "run_ops (op # ops) st = run_ops ops (apply_op op st)"

definition metadata_iff_live :: "storage \<Rightarrow> bool" where
  "metadata_iff_live st = list_all (\<lambda>s. (currentStream s \<noteq> None) = isLive s) (streamers st)"

definition metadata_only_live :: "storage \<Rightarrow> bool" where
  "metadata_only_live st = list_all (\<lambda>s. currentStream s \<noteq> None \<longrightarrow> isLive s) (streamers st)"

text \<open>A status update that sets the flag to true passes stream information.\<close>

fun metadata_when_live :: "store_op \<Rightarrow> bool" where
  "metadata_when_live (SetLiveState i live streamInfo) = (live \<longrightarrow> streamInfo \<noteq> None)"
| "metadata_when_live _ = True"

text \<open>
  A notification fires when \<open>sendLiveNotification\<close> is called; the sweep's log holds one
  \<open>Notified\<close> event for each call.
\<close>

definition notifications_for :: "string \<Rightarrow> event list \<Rightarrow> event list" where
  "notifications_for i evs =
     filter (\<lambda>ev. case ev of Notified j ds \<Rightarrow> j = i | CheckError n err \<Rightarrow> False) evs"

text \<open>Successive sweeps, each against its own world; the logs are concatenated.\<close>

fun run_sweeps :: "(nat \<Rightarrow> env) list \<Rightarrow> storage \<Rightarrow> storage \<times> event list" where
  "run_sweeps [] st = (st, [])"
| "run_sweeps (w # ws) st =
     (let (st1, ev1) = checkAllStreamers w st;
          (st2, ev2) = run_sweeps ws st1
      in (st2, ev1 @ ev2))"

section \<open>Sample data\<close>

definition alice :: twitch_user where
  "alice = \<lparr>user_id = ''123'', login = ''alice'', display_name = ''Alice'',
            profile_image_url = ''https://cdn.example/alice.png''\<rparr>"

definition bob :: twitch_user where
  "bob = \<lparr>user_id = ''456'', login = ''bob'', display_name = ''Bob'',
          profile_image_url = ''https://cdn.example/bob.png''\<rparr>"

definition watching_alice :: storage where
  "watching_alice = snd (addStreamer alice 0 initStorage)"

definition watching_both :: storage where
  "watching_both = snd (addStreamer bob 0 watching_alice)"

definition session :: "instant option \<Rightarrow> stream_info" where
  "session t = \<lparr>title = ''Speedrun'', game_name = ''Celeste'',
                thumbnail_url = ''https://cdn.example/live-{width}x{height}.jpg'',
                viewer_count = Some 12, started_at = t\<rparr>"

definition offline :: env where
  "offline = \<lparr>liveCheck = Inr None, guilds = Inr [], clock = 0\<rparr>"

text \<open>A live answer with session start \<open>t\<close>, while the local clock reads \<open>c\<close>.\<close>

definition goes_live :: "instant option \<Rightarrow> instant \<Rightarrow> env" where
  "goes_live t c = \<lparr>liveCheck = Inr (Some (session t)),
     guilds = Inr [\<lparr>guildName = ''home'', lookup = Channel ''general'', sendResolves = True\<rparr>],
     clock = c\<rparr>"

text \<open>The same, with no guild that can be reached.\<close>

definition unreachable :: "instant option \<Rightarrow> instant \<Rightarrow> env" where
  "unreachable t c = \<lparr>liveCheck = Inr (Some (session t)),
     guilds = Inr [\<lparr>guildName = ''home'', lookup = Channel ''general'', sendResolves = False\<rparr>,
                  \<lparr>guildName = ''away'', lookup = LookupThrows, sendResolves = True\<rparr>],
     clock = c\<rparr>"

definition failing :: env where
  "failing = \<lparr>liveCheck = Inl FetchError, guilds = Inr [], clock = 0\<rparr>"

definition everywhere :: "env \<Rightarrow> nat \<Rightarrow> env" where
  "everywhere e k = e"

text \<open>The first streamer of the list cannot be fetched; no storage call throws.\<close>

definition fetch_fails_first :: "env \<Rightarrow> nat \<Rightarrow> storage_faults \<times> env" where
  "fetch_fails_first e k = (no_faults, if k = 0 then failing else e)"

text \<open>For the first streamer of the list the read of the file in \<open>shouldNotify\<close> throws.\<close>

definition policy_read_fails_first :: "env \<Rightarrow> nat \<Rightarrow> storage_faults \<times> env" where
  "policy_read_fails_first e k =
     (if k = 0 then no_faults\<lparr>shouldNotifyThrows := Some StorageError\<rparr> else no_faults, e)"

lemmas sample_defs = alice_def bob_def watching_alice_def watching_both_def session_def
  offline_def goes_live_def unreachable_def failing_def everywhere_def
  initStorage_def addStreamer_def

section \<open>Auxiliary facts\<close>

subsection \<open>Identifiers in the store\<close>

lemma sid_setStatus [simp]: "sid (setStatus live x s) = sid s"
  by (simp add: setStatus_def split: option.splits)

lemma map_sid_update_first:
  "(\<And>s. sid (f s) = sid s) \<Longrightarrow> map sid (update_first i f xs) = map sid xs"
  by (induction xs) auto

lemma ids_updateStreamerStatus:
  "map sid (streamers (snd (updateStreamerStatus i live x st))) = map sid (streamers st)"
  by (simp add: updateStreamerStatus_def map_sid_update_first split: option.splits)

lemma ids_addStreamer:
  "map sid (streamers (snd (addStreamer u t st))) =
     (if user_id u \<in> set (map sid (streamers st)) then map sid (streamers st)
      else map sid (streamers st) @ [user_id u])"
  by (force simp: addStreamer_def list_ex_iff)

lemma ids_removeStreamer:
  "map sid (streamers (snd (removeStreamer i st))) = filter (\<lambda>j. j \<noteq> i) (map sid (streamers st))"
  by (simp add: removeStreamer_def Let_def filter_map comp_def)

lemma distinct_apply_op:
  "distinct (map sid (streamers st)) \<Longrightarrow> distinct (map sid (streamers (apply_op op st)))"
  by (cases op) (simp_all add: ids_addStreamer ids_removeStreamer ids_updateStreamerStatus)

lemma distinct_run_ops:
  "distinct (map sid (streamers st)) \<Longrightarrow> distinct (map sid (streamers (run_ops ops st)))"
  by (induction ops arbitrary: st) (simp_all add: distinct_apply_op)

subsection \<open>sendLiveNotification never rejects\<close>

lemma notifyGuilds_Inr: "\<exists>ds. notifyGuilds s info gs = Inr ds"
  by (induction gs) (auto simp: Let_def)

lemma sendLiveNotification_Inr: "\<exists>ds. sendLiveNotification g s info = Inr ds"
  by (simp add: sendLiveNotification_def split: sum.splits)

subsection \<open>One step of the loop\<close>

lemma lastNotified_update [simp]:
  "lastNotified (snd (updateStreamerStatus i live x st)) = lastNotified st"
  by (simp add: updateStreamerStatus_def split: option.splits)

lemma shouldNotify_cong:
  "lastNotified st i = lastNotified st' i \<Longrightarrow> shouldNotify i t st = shouldNotify i t st'"
  by (simp add: shouldNotify_def)

lemma shouldNotify_update [simp]:
  "shouldNotify i t (snd (updateStreamerStatus j live x st)) = shouldNotify i t st"
  by (rule shouldNotify_cong) simp

lemma streamers_markNotified [simp]: "streamers (markNotified i t st) = streamers st"
  by (simp add: markNotified_def)

lemma lastNotified_markNotified [simp]:
  "lastNotified (markNotified i t st) = (lastNotified st)(i \<mapsto> t)"
  by (simp add: markNotified_def)

lemma processStreamer_cases:
  "processStreamer s e st =
     (case liveCheck e of
        Inl err \<Rightarrow> (st, [CheckError (displayName s) err])
      | Inr None \<Rightarrow> (snd (updateStreamerStatus (sid s) False None st), [])
      | Inr (Some info) \<Rightarrow>
          if \<not> isLive s \<and> shouldNotify (sid s) (started_at info) st then
            (markNotified (sid s) (clock e) (snd (updateStreamerStatus (sid s) True (Some info) st)),
             [Notified (sid s) (projr (sendLiveNotification (guilds e) s info))])
          else (snd (updateStreamerStatus (sid s) True (Some info) st), []))"
proof (cases "liveCheck e")
  case (Inl err)
  then show ?thesis by (simp add: processStreamer_def)
next
  case (Inr x)
  show ?thesis
  proof (cases x)
    case None
    with Inr show ?thesis by (simp add: processStreamer_def)
  next
    case (Some info)
    obtain ds where "sendLiveNotification (guilds e) s info = Inr ds"
      using sendLiveNotification_Inr by blast
    with Inr Some show ?thesis by (simp add: processStreamer_def)
  qed
qed

lemma ids_processStreamer:
  "map sid (streamers (fst (processStreamer s e st))) = map sid (streamers st)"
  by (simp add: processStreamer_cases ids_updateStreamerStatus split: sum.splits option.splits)

lemma update_first_other:
  "q < length xs \<Longrightarrow> sid (xs ! q) \<noteq> i \<Longrightarrow> update_first i f xs ! q = xs ! q"
  by (induction xs arbitrary: q) (auto simp: nth_Cons split: nat.splits)

lemma update_first_self:
  "distinct (map sid xs) \<Longrightarrow> q < length xs \<Longrightarrow> sid (xs ! q) = i \<Longrightarrow>
     update_first i f xs ! q = f (xs ! q)"
proof (induction xs arbitrary: q)
  case Nil
  then show ?case by simp
next
  case (Cons x xs)
  show ?case
  proof (cases q)
    case 0
    with Cons.prems show ?thesis by simp
  next
    case (Suc k)
    with Cons.prems have k: "k < length xs" "sid (xs ! k) = i" by simp_all
    then have "xs ! k \<in> set xs" by simp
    with k have "i \<in> sid ` set xs" by blast
    with Cons.prems have "sid x \<noteq> i" by auto
    with Cons k Suc show ?thesis by simp
  qed
qed

lemma find_absent: "i \<notin> set (map sid xs) \<Longrightarrow> find (\<lambda>s. sid s = i) xs = None"
  by (induction xs) auto

lemma find_present: "i \<in> set (map sid xs) \<Longrightarrow> \<exists>s. find (\<lambda>s. sid s = i) xs = Some s"
  by (induction xs) auto

lemma entry_update_other:
  "q < length (streamers st) \<Longrightarrow> sid (streamers st ! q) \<noteq> i \<Longrightarrow>
     streamers (snd (updateStreamerStatus i live x st)) ! q = streamers st ! q"
  by (simp add: updateStreamerStatus_def update_first_other split: option.splits)

lemma entry_update_self:
  assumes "distinct (map sid (streamers st))" "q < length (streamers st)"
    "sid (streamers st ! q) = i"
  shows "streamers (snd (updateStreamerStatus i live x st)) ! q = setStatus live x (streamers st ! q)"
proof -
  from assms have "i \<in> set (map sid (streamers st))" by auto
  then obtain s where "find (\<lambda>s. sid s = i) (streamers st) = Some s"
    using find_present by blast
  with assms show ?thesis
    by (simp add: updateStreamerStatus_def update_first_self)
qed

lemma step_other_entry:
  "q < length (streamers st) \<Longrightarrow> sid (streamers st ! q) \<noteq> sid s \<Longrightarrow>
     streamers (fst (processStreamer s e st)) ! q = streamers st ! q"
  by (simp add: processStreamer_cases entry_update_other split: sum.splits option.splits)

lemma step_other_ledger:
  "sid s \<noteq> j \<Longrightarrow> lastNotified (fst (processStreamer s e st)) j = lastNotified st j"
  by (simp add: processStreamer_cases split: sum.splits option.splits)

lemma step_other_events:
  "sid s \<noteq> j \<Longrightarrow> notifications_for j (snd (processStreamer s e st)) = []"
  by (simp add: processStreamer_cases notifications_for_def split: sum.splits option.splits)

lemma step_self_entry:
  assumes "distinct (map sid (streamers st))" "q < length (streamers st)"
    "sid (streamers st ! q) = sid s"
  shows "streamers (fst (processStreamer s e st)) ! q =
     (case liveCheck e of
        Inl err \<Rightarrow> streamers st ! q
      | Inr x \<Rightarrow> setStatus (x \<noteq> None) x (streamers st ! q))"
  using assms
  by (simp add: processStreamer_cases entry_update_self split: sum.splits option.splits)

lemma step_self_ledger:
  "lastNotified (fst (processStreamer s e st)) (sid s) =
     (case liveCheck e of
        Inl err \<Rightarrow> lastNotified st (sid s)
      | Inr None \<Rightarrow> lastNotified st (sid s)
      | Inr (Some info) \<Rightarrow>
          if \<not> isLive s \<and> shouldNotify (sid s) (started_at info) st then Some (clock e)
          else lastNotified st (sid s))"
  by (simp add: processStreamer_cases split: sum.splits option.splits)

lemma step_self_events:
  "notifications_for (sid s) (snd (processStreamer s e st)) =
     (case liveCheck e of
        Inl err \<Rightarrow> []
      | Inr None \<Rightarrow> []
      | Inr (Some info) \<Rightarrow>
          if \<not> isLive s \<and> shouldNotify (sid s) (started_at info) st
          then [Notified (sid s) (projr (sendLiveNotification (guilds e) s info))]
          else [])"
  by (simp add: processStreamer_cases notifications_for_def split: sum.splits option.splits)

subsection \<open>The loop\<close>

lemma notifications_for_append [simp]:
  "notifications_for j (a @ b) = notifications_for j a @ notifications_for j b"
  by (simp add: notifications_for_def)

lemma sweepLoop_Cons:
  "sweepLoop ((s, e) # rest) st =
     (fst (sweepLoop rest (fst (processStreamer s e st))),
      snd (processStreamer s e st) @ snd (sweepLoop rest (fst (processStreamer s e st))))"
  by (simp add: case_prod_beta)

lemma ids_sweepLoop:
  "map sid (streamers (fst (sweepLoop ps st))) = map sid (streamers st)"
proof (induction ps arbitrary: st)
  case Nil
  then show ?case by simp
next
  case (Cons a ps)
  obtain s e where a: "a = (s, e)" by (cases a)
  show ?case unfolding a sweepLoop_Cons by (simp add: Cons.IH ids_processStreamer)
qed

lemma step_cong:
  assumes "distinct (map sid (streamers st))" "distinct (map sid (streamers st'))"
    "q < length (streamers st)" "q < length (streamers st')"
    "streamers st ! q = streamers st' ! q" "sid (streamers st ! q) = sid s"
    "lastNotified st (sid s) = lastNotified st' (sid s)"
  shows "streamers (fst (processStreamer s e st)) ! q = streamers (fst (processStreamer s e st')) ! q"
    and "lastNotified (fst (processStreamer s e st)) (sid s) =
         lastNotified (fst (processStreamer s e st')) (sid s)"
    and "notifications_for (sid s) (snd (processStreamer s e st)) =
         notifications_for (sid s) (snd (processStreamer s e st'))"
proof -
  have sn: "\<And>t. shouldNotify (sid s) t st = shouldNotify (sid s) t st'"
    using assms(7) by (rule shouldNotify_cong)
  have sid': "sid (streamers st' ! q) = sid s"
    using assms(5,6) by simp
  show "streamers (fst (processStreamer s e st)) ! q = streamers (fst (processStreamer s e st')) ! q"
    unfolding step_self_entry [OF assms(1,3,6)] step_self_entry [OF assms(2,4) sid']
    by (simp add: assms(5) split: sum.splits)
  show "lastNotified (fst (processStreamer s e st)) (sid s) =
         lastNotified (fst (processStreamer s e st')) (sid s)"
    using assms(7) by (simp add: step_self_ledger sn split: sum.splits option.splits)
  show "notifications_for (sid s) (snd (processStreamer s e st)) =
         notifications_for (sid s) (snd (processStreamer s e st'))"
    by (simp add: step_self_events sn split: sum.splits option.splits)
qed

lemma loop_absent:
  assumes "j \<notin> set (map (sid \<circ> fst) ps)" "q < length (streamers st)"
    "sid (streamers st ! q) = j"
  shows "streamers (fst (sweepLoop ps st)) ! q = streamers st ! q \<and>
         lastNotified (fst (sweepLoop ps st)) j = lastNotified st j \<and>
         notifications_for j (snd (sweepLoop ps st)) = []"
  using assms
proof (induction ps arbitrary: st)
  case Nil
  then show ?case by (simp add: notifications_for_def)
next
  case (Cons a ps)
  obtain s e where a: "a = (s, e)" by (cases a)
  let ?st1 = "fst (processStreamer s e st)"
  from Cons.prems a have ne: "sid s \<noteq> j" and rest: "j \<notin> set (map (sid \<circ> fst) ps)"
    by auto
  have len: "length (streamers ?st1) = length (streamers st)"
    using ids_processStreamer [of s e st] by (metis length_map)
  have entry: "streamers ?st1 ! q = streamers st ! q"
    using Cons.prems ne by (simp add: step_other_entry)
  have ih: "streamers (fst (sweepLoop ps ?st1)) ! q = streamers ?st1 ! q \<and>
         lastNotified (fst (sweepLoop ps ?st1)) j = lastNotified ?st1 j \<and>
         notifications_for j (snd (sweepLoop ps ?st1)) = []"
    using rest Cons.prems len entry by (intro Cons.IH) simp_all
  show ?case unfolding a sweepLoop_Cons
    using ih entry ne by (simp add: step_other_ledger step_other_events)
qed

lemma loop_present:
  assumes "distinct (map (sid \<circ> fst) ps)" "distinct (map sid (streamers st))"
    "q < length (streamers st)" "sid (streamers st ! q) = sid s"
    "find (\<lambda>(s', e'). sid s' = sid s) ps = Some (s, e)"
  shows "streamers (fst (sweepLoop ps st)) ! q = streamers (fst (processStreamer s e st)) ! q \<and>
         lastNotified (fst (sweepLoop ps st)) (sid s) =
           lastNotified (fst (processStreamer s e st)) (sid s) \<and>
         notifications_for (sid s) (snd (sweepLoop ps st)) =
           notifications_for (sid s) (snd (processStreamer s e st))"
  using assms
proof (induction ps arbitrary: st)
  case Nil
  then show ?case by simp
next
  case (Cons a ps)
  obtain s' e' where a: "a = (s', e')" by (cases a)
  let ?st1 = "fst (processStreamer s' e' st)"
  have ids1: "map sid (streamers ?st1) = map sid (streamers st)"
    by (rule ids_processStreamer)
  then have len: "length (streamers ?st1) = length (streamers st)"
    by (metis length_map)
  have q1: "q < length (streamers ?st1)" using len Cons.prems by simp
  have d1: "distinct (map sid (streamers ?st1))" using ids1 Cons.prems by simp
  have sid1: "sid (streamers ?st1 ! q) = sid s"
  proof -
    have "sid (streamers ?st1 ! q) = map sid (streamers ?st1) ! q" using q1 by simp
    also have "\<dots> = map sid (streamers st) ! q" by (simp add: ids1)
    also have "\<dots> = sid s" using Cons.prems by simp
    finally show ?thesis .
  qed
  show ?case
  proof (cases "sid s' = sid s")
    case True
    with Cons.prems a have eq: "s' = s" "e' = e" by simp_all
    from Cons.prems a True have "sid s \<notin> set (map (sid \<circ> fst) ps)" by auto
    then have "streamers (fst (sweepLoop ps ?st1)) ! q = streamers ?st1 ! q \<and>
         lastNotified (fst (sweepLoop ps ?st1)) (sid s) = lastNotified ?st1 (sid s) \<and>
         notifications_for (sid s) (snd (sweepLoop ps ?st1)) = []"
      using q1 sid1 by (rule loop_absent)
    then show ?thesis unfolding a sweepLoop_Cons using eq by simp
  next
    case False
    with Cons.prems a have f: "find (\<lambda>(s', e'). sid s' = sid s) ps = Some (s, e)"
      by simp
    from Cons.prems(1) have dps: "distinct (map (sid \<circ> fst) ps)" by (simp add: comp_def)
    have ih: "streamers (fst (sweepLoop ps ?st1)) ! q = streamers (fst (processStreamer s e ?st1)) ! q \<and>
         lastNotified (fst (sweepLoop ps ?st1)) (sid s) =
           lastNotified (fst (processStreamer s e ?st1)) (sid s) \<and>
         notifications_for (sid s) (snd (sweepLoop ps ?st1)) =
           notifications_for (sid s) (snd (processStreamer s e ?st1))"
      using dps d1 q1 sid1 f by (rule Cons.IH)
    have entry: "streamers ?st1 ! q = streamers st ! q"
      using Cons.prems False by (simp add: step_other_entry)
    have ledger: "lastNotified ?st1 (sid s) = lastNotified st (sid s)"
      using False by (simp add: step_other_ledger)
    note cong = step_cong [OF d1 Cons.prems(2) q1 Cons.prems(3) entry sid1 ledger, of e]
    have none: "notifications_for (sid s) (snd (processStreamer s' e' st)) = []"
      using False by (simp add: step_other_events)
    show ?thesis unfolding a sweepLoop_Cons using ih cong none by simp
  qed
qed

lemma find_zip_world:
  assumes "distinct (map sid ss)" "q < length ss"
  shows "find (\<lambda>(s', e'). sid s' = sid (ss ! q)) (zip ss (map w [0..<length ss])) = Some (ss ! q, w q)"
proof -
  let ?ps = "zip ss (map w [0..<length ss])"
  have nth: "\<And>k. k < length ss \<Longrightarrow> ?ps ! k = (ss ! k, w k)" by simp
  have "\<And>k. k < q \<Longrightarrow> sid (ss ! k) \<noteq> sid (ss ! q)"
  proof
    fix k assume k: "k < q" and eq: "sid (ss ! k) = sid (ss ! q)"
    with assms have "map sid ss ! k = map sid ss ! q" by simp
    with assms k have "k = q"
      using nth_eq_iff_index_eq [of "map sid ss" k q] by simp
    with k show False by simp
  qed
  with assms nth show ?thesis
    by (subst find_Some_iff) (rule exI [of _ q], simp)
qed

lemma sweep_entity:
  assumes "distinct (map sid (streamers st))" "q < length (streamers st)"
  shows "streamers (fst (checkAllStreamers w st)) ! q =
           streamers (fst (processStreamer (streamers st ! q) (w q) st)) ! q"
    and "lastNotified (fst (checkAllStreamers w st)) (sid (streamers st ! q)) =
           lastNotified (fst (processStreamer (streamers st ! q) (w q) st)) (sid (streamers st ! q))"
    and "notifications_for (sid (streamers st ! q)) (snd (checkAllStreamers w st)) =
           notifications_for (sid (streamers st ! q))
             (snd (processStreamer (streamers st ! q) (w q) st))"
proof -
  let ?ss = "streamers st"
  let ?ps = "zip ?ss (map w [0..<length ?ss])"
  have "map (sid \<circ> fst) ?ps = map sid ?ss"
    by (simp add: map_fst_zip flip: map_map)
  with assms have d: "distinct (map (sid \<circ> fst) ?ps)" by simp
  have f: "find (\<lambda>(s', e'). sid s' = sid (?ss ! q)) ?ps = Some (?ss ! q, w q)"
    using assms by (rule find_zip_world)
  have c: "checkAllStreamers w st = sweepLoop ?ps st"
    by (simp add: checkAllStreamers_def getAllStreamers_def Let_def)
  note r = loop_present [OF d assms(1) assms(2) refl f]
  show "streamers (fst (checkAllStreamers w st)) ! q =
           streamers (fst (processStreamer (streamers st ! q) (w q) st)) ! q"
    using r c by simp
  show "lastNotified (fst (checkAllStreamers w st)) (sid (streamers st ! q)) =
           lastNotified (fst (processStreamer (streamers st ! q) (w q) st)) (sid (streamers st ! q))"
    using r c by simp
  show "notifications_for (sid (streamers st ! q)) (snd (checkAllStreamers w st)) =
           notifications_for (sid (streamers st ! q))
             (snd (processStreamer (streamers st ! q) (w q) st))"
    using r c by simp
qed

lemma ids_checkAllStreamers:
  "map sid (streamers (fst (checkAllStreamers w st))) = map sid (streamers st)"
  by (simp add: checkAllStreamers_def Let_def ids_sweepLoop)

subsection \<open>One streamer across a sweep\<close>

lemma isLive_setStatus [simp]: "isLive (setStatus live x s) = live"
  by (simp add: setStatus_def split: option.splits)

lemma run_sweeps_Cons:
  "run_sweeps (w # ws) st =
     (fst (run_sweeps ws (fst (checkAllStreamers w st))),
      snd (checkAllStreamers w st) @ snd (run_sweeps ws (fst (checkAllStreamers w st))))"
  by (simp add: case_prod_beta)

lemma sweep_keeps_position:
  assumes "distinct (map sid (streamers st))" "p < length (streamers st)"
  shows "distinct (map sid (streamers (fst (checkAllStreamers w st)))) \<and>
         p < length (streamers (fst (checkAllStreamers w st))) \<and>
         sid (streamers (fst (checkAllStreamers w st)) ! p) = sid (streamers st ! p)"
proof -
  let ?st' = "fst (checkAllStreamers w st)"
  have ids: "map sid (streamers ?st') = map sid (streamers st)"
    by (rule ids_checkAllStreamers)
  then have len: "length (streamers ?st') = length (streamers st)"
    by (metis length_map)
  have "sid (streamers ?st' ! p) = map sid (streamers ?st') ! p"
    using len assms by simp
  also have "\<dots> = sid (streamers st ! p)"
    using assms by (simp add: ids)
  finally show ?thesis using ids len assms by simp
qed

lemma sweep_offline:
  assumes "distinct (map sid (streamers st))" "p < length (streamers st)"
    "liveCheck (w p) = Inr None"
  shows "\<not> isLive (streamers (fst (checkAllStreamers w st)) ! p) \<and>
         lastNotified (fst (checkAllStreamers w st)) (sid (streamers st ! p)) =
           lastNotified st (sid (streamers st ! p)) \<and>
         notifications_for (sid (streamers st ! p)) (snd (checkAllStreamers w st)) = []"
  using assms
  by (simp add: sweep_entity step_self_entry step_self_ledger step_self_events)

lemma sweep_live:
  assumes "distinct (map sid (streamers st))" "p < length (streamers st)"
    "liveCheck (w p) = Inr (Some info)"
  shows "isLive (streamers (fst (checkAllStreamers w st)) ! p) \<and>
         lastNotified (fst (checkAllStreamers w st)) (sid (streamers st ! p)) =
           (if \<not> isLive (streamers st ! p) \<and>
               shouldNotify (sid (streamers st ! p)) (started_at info) st
            then Some (clock (w p)) else lastNotified st (sid (streamers st ! p))) \<and>
         length (notifications_for (sid (streamers st ! p)) (snd (checkAllStreamers w st))) =
           (if \<not> isLive (streamers st ! p) \<and>
               shouldNotify (sid (streamers st ! p)) (started_at info) st
            then 1 else 0)"
  using assms
  by (simp add: sweep_entity step_self_entry step_self_ledger step_self_events)

subsection \<open>Stream metadata and the live flag\<close>

lemma list_all_update_first:
  "list_all P xs \<Longrightarrow> (\<And>s. P s \<Longrightarrow> P (f s)) \<Longrightarrow> list_all P (update_first i f xs)"
  by (induction xs) auto

lemma only_live_setStatus:
  "currentStream (setStatus live x s) \<noteq> None \<longrightarrow> isLive (setStatus live x s)"
  by (simp add: setStatus_def split: option.splits)

lemma iff_live_setStatus:
  "live \<longrightarrow> x \<noteq> None \<Longrightarrow>
     (currentStream (setStatus live x s) \<noteq> None) = isLive (setStatus live x s)"
  by (cases x) (auto simp: setStatus_def)

lemma streamers_update_cases:
  "streamers (snd (updateStreamerStatus i live x st)) = streamers st \<or>
   streamers (snd (updateStreamerStatus i live x st)) =
     update_first i (setStatus live x) (streamers st)"
  by (simp add: updateStreamerStatus_def split: option.splits)

lemma only_live_apply_op:
  "metadata_only_live st \<Longrightarrow> metadata_only_live (apply_op op st)"
proof (cases op)
  case (Add u t)
  assume "metadata_only_live st"
  with Add show ?thesis by (simp add: metadata_only_live_def addStreamer_def)
next
  case (Remove i)
  assume "metadata_only_live st"
  with Remove show ?thesis
    by (simp add: metadata_only_live_def removeStreamer_def Let_def list_all_iff)
next
  case (SetLiveState i live x)
  assume inv: "metadata_only_live st"
  then have "list_all (\<lambda>s. currentStream s \<noteq> None \<longrightarrow> isLive s)
      (update_first i (setStatus live x) (streamers st))"
    unfolding metadata_only_live_def
    by (rule list_all_update_first) (rule only_live_setStatus)
  with inv SetLiveState streamers_update_cases [of i live x st] show ?thesis
    unfolding metadata_only_live_def by auto
qed

lemma iff_live_apply_op:
  "metadata_iff_live st \<Longrightarrow> metadata_when_live op \<Longrightarrow> metadata_iff_live (apply_op op st)"
proof (cases op)
  case (Add u t)
  assume "metadata_iff_live st"
  with Add show ?thesis by (simp add: metadata_iff_live_def addStreamer_def)
next
  case (Remove i)
  assume "metadata_iff_live st"
  with Remove show ?thesis
    by (simp add: metadata_iff_live_def removeStreamer_def Let_def list_all_iff)
next
  case (SetLiveState i live x)
  assume inv: "metadata_iff_live st" and "metadata_when_live op"
  with SetLiveState have m: "live \<longrightarrow> x \<noteq> None" by simp
  from inv have "list_all (\<lambda>s. (currentStream s \<noteq> None) = isLive s)
      (update_first i (setStatus live x) (streamers st))"
    unfolding metadata_iff_live_def
    by (rule list_all_update_first) (rule iff_live_setStatus [OF m])
  with inv SetLiveState streamers_update_cases [of i live x st] show ?thesis
    unfolding metadata_iff_live_def by auto
qed

lemma only_live_run_ops:
  "metadata_only_live st \<Longrightarrow> metadata_only_live (run_ops ops st)"
  by (induction ops arbitrary: st) (simp_all add: only_live_apply_op)

lemma iff_live_run_ops:
  "metadata_iff_live st \<Longrightarrow> list_all metadata_when_live ops \<Longrightarrow>
     metadata_iff_live (run_ops ops st)"
  by (induction ops arbitrary: st) (simp_all add: iff_live_apply_op)

subsection \<open>The sweep with storage calls that throw\<close>

lemma processStreamer_io_no_faults:
  "processStreamer_io no_faults s e st = processStreamer s e st"
  by (simp add: processStreamer_io_def processStreamer_def no_faults_def Let_def
      split: sum.splits option.splits)

lemma processStreamer_io_cases:
  "processStreamer_io f s e st =
     (case liveCheck e of
        Inl err \<Rightarrow> (st, [CheckError (displayName s) err])
      | Inr x \<Rightarrow>
          (case updateThrows f of
             Some err \<Rightarrow> (st, [CheckError (displayName s) err])
           | None \<Rightarrow>
               (case x of
                  None \<Rightarrow> (snd (updateStreamerStatus (sid s) False None st), [])
                | Some info \<Rightarrow>
                    if isLive s then (snd (updateStreamerStatus (sid s) True (Some info) st), [])
                    else
                      (case shouldNotifyThrows f of
                         Some err \<Rightarrow>
                           (snd (updateStreamerStatus (sid s) True (Some info) st),
                            [CheckError (displayName s) err])
                       | None \<Rightarrow>
                           if shouldNotify (sid s) (started_at info) st then
                             (case markNotifiedThrows f of
                                Some err \<Rightarrow>
                                  (snd (updateStreamerStatus (sid s) True (Some info) st),
                                   [Notified (sid s) (projr (sendLiveNotification (guilds e) s info)),
                                    CheckError (displayName s) err])
                              | None \<Rightarrow>
                                  (markNotified (sid s) (clock e)
                                     (snd (updateStreamerStatus (sid s) True (Some info) st)),
                                   [Notified (sid s) (projr (sendLiveNotification (guilds e) s info))]))
                           else (snd (updateStreamerStatus (sid s) True (Some info) st), [])))))"
proof (cases "liveCheck e")
  case (Inl err)
  then show ?thesis by (simp add: processStreamer_io_def)
next
  case (Inr x)
  show ?thesis
  proof (cases x)
    case None
    with Inr show ?thesis by (simp add: processStreamer_io_def split: option.splits)
  next
    case (Some info)
    obtain ds where "sendLiveNotification (guilds e) s info = Inr ds"
      using sendLiveNotification_Inr by blast
    with Inr Some show ?thesis by (simp add: processStreamer_io_def split: option.splits)
  qed
qed

lemma ids_processStreamer_io:
  "map sid (streamers (fst (processStreamer_io f s e st))) = map sid (streamers st)"
  by (simp add: processStreamer_io_cases ids_updateStreamerStatus split: sum.splits option.splits)

lemma io_other_entry:
  "q < length (streamers st) \<Longrightarrow> sid (streamers st ! q) \<noteq> sid s \<Longrightarrow>
     streamers (fst (processStreamer_io f s e st)) ! q = streamers st ! q"
  by (simp add: processStreamer_io_cases entry_update_other split: sum.splits option.splits)

lemma io_other_ledger:
  "sid s \<noteq> j \<Longrightarrow> lastNotified (fst (processStreamer_io f s e st)) j = lastNotified st j"
  by (simp add: processStreamer_io_cases split: sum.splits option.splits)

lemma io_other_events:
  "sid s \<noteq> j \<Longrightarrow> notifications_for j (snd (processStreamer_io f s e st)) = []"
  by (simp add: processStreamer_io_cases notifications_for_def split: sum.splits option.splits)

lemma io_self_entry:
  assumes "distinct (map sid (streamers st))" "q < length (streamers st)"
    "sid (streamers st ! q) = sid s"
  shows "streamers (fst (processStreamer_io f s e st)) ! q =
     (case liveCheck e of
        Inl err \<Rightarrow> streamers st ! q
      | Inr x \<Rightarrow>
          (case updateThrows f of
             Some err \<Rightarrow> streamers st ! q
           | None \<Rightarrow> setStatus (x \<noteq> None) x (streamers st ! q)))"
  using assms
  by (simp add: processStreamer_io_cases entry_update_self split: sum.splits option.splits)

lemma io_self_ledger:
  "lastNotified (fst (processStreamer_io f s e st)) (sid s) =
     (case liveCheck e of
        Inl err \<Rightarrow> lastNotified st (sid s)
      | Inr None \<Rightarrow> lastNotified st (sid s)
      | Inr (Some info) \<Rightarrow>
          if updateThrows f = None \<and> \<not> isLive s \<and> shouldNotifyThrows f = None \<and>
             shouldNotify (sid s) (started_at info) st \<and> markNotifiedThrows f = None
          then Some (clock e)
          else lastNotified st (sid s))"
  by (auto simp: processStreamer_io_cases split: sum.splits option.splits)

lemma io_self_events:
  "notifications_for (sid s) (snd (processStreamer_io f s e st)) =
     (case liveCheck e of
        Inl err \<Rightarrow> []
      | Inr None \<Rightarrow> []
      | Inr (Some info) \<Rightarrow>
          if updateThrows f = None \<and> \<not> isLive s \<and> shouldNotifyThrows f = None \<and>
             shouldNotify (sid s) (started_at info) st
          then [Notified (sid s) (projr (sendLiveNotification (guilds e) s info))]
          else [])"
  by (auto simp: processStreamer_io_cases notifications_for_def split: sum.splits option.splits)

lemma sweepLoop_io_Cons:
  "sweepLoop_io ((s, f, e) # rest) st =
     (fst (sweepLoop_io rest (fst (processStreamer_io f s e st))),
      snd (processStreamer_io f s e st) @
        snd (sweepLoop_io rest (fst (processStreamer_io f s e st))))"
  by (simp add: case_prod_beta)

lemma ids_sweepLoop_io:
  "map sid (streamers (fst (sweepLoop_io ps st))) = map sid (streamers st)"
proof (induction ps arbitrary: st)
  case Nil
  then show ?case by simp
next
  case (Cons a ps)
  obtain s f e where a: "a = (s, f, e)" by (cases a)
  show ?case unfolding a sweepLoop_io_Cons by (simp add: Cons.IH ids_processStreamer_io)
qed

lemma io_cong:
  assumes "distinct (map sid (streamers st))" "distinct (map sid (streamers st'))"
    "q < length (streamers st)" "q < length (streamers st')"
    "streamers st ! q = streamers st' ! q" "sid (streamers st ! q) = sid s"
    "lastNotified st (sid s) = lastNotified st' (sid s)"
  shows "streamers (fst (processStreamer_io f s e st)) ! q =
         streamers (fst (processStreamer_io f s e st')) ! q"
    and "lastNotified (fst (processStreamer_io f s e st)) (sid s) =
         lastNotified (fst (processStreamer_io f s e st')) (sid s)"
    and "notifications_for (sid s) (snd (processStreamer_io f s e st)) =
         notifications_for (sid s) (snd (processStreamer_io f s e st'))"
proof -
  have sn: "\<And>t. shouldNotify (sid s) t st = shouldNotify (sid s) t st'"
    using assms(7) by (rule shouldNotify_cong)
  have sid': "sid (streamers st' ! q) = sid s"
    using assms(5,6) by simp
  show "streamers (fst (processStreamer_io f s e st)) ! q =
         streamers (fst (processStreamer_io f s e st')) ! q"
    unfolding io_self_entry [OF assms(1,3,6)] io_self_entry [OF assms(2,4) sid']
    by (simp add: assms(5) split: sum.splits option.splits)
  show "lastNotified (fst (processStreamer_io f s e st)) (sid s) =
         lastNotified (fst (processStreamer_io f s e st')) (sid s)"
    using assms(7) by (simp add: io_self_ledger sn split: sum.splits option.splits)
  show "notifications_for (sid s) (snd (processStreamer_io f s e st)) =
         notifications_for (sid s) (snd (processStreamer_io f s e st'))"
    by (simp add: io_self_events sn split: sum.splits option.splits)
qed

lemma loop_io_absent:
  assumes "j \<notin> set (map (sid \<circ> fst) ps)" "q < length (streamers st)"
    "sid (streamers st ! q) = j"
  shows "streamers (fst (sweepLoop_io ps st)) ! q = streamers st ! q \<and>
         lastNotified (fst (sweepLoop_io ps st)) j = lastNotified st j \<and>
         notifications_for j (snd (sweepLoop_io ps st)) = []"
  using assms
proof (induction ps arbitrary: st)
  case Nil
  then show ?case by (simp add: notifications_for_def)
next
  case (Cons a ps)
  obtain s f e where a: "a = (s, f, e)" by (cases a)
  let ?st1 = "fst (processStreamer_io f s e st)"
  from Cons.prems a have ne: "sid s \<noteq> j" and rest: "j \<notin> set (map (sid \<circ> fst) ps)"
    by auto
  have len: "length (streamers ?st1) = length (streamers st)"
    using ids_processStreamer_io [of f s e st] by (metis length_map)
  have entry: "streamers ?st1 ! q = streamers st ! q"
    using Cons.prems ne by (simp add: io_other_entry)
  have ih: "streamers (fst (sweepLoop_io ps ?st1)) ! q = streamers ?st1 ! q \<and>
         lastNotified (fst (sweepLoop_io ps ?st1)) j = lastNotified ?st1 j \<and>
         notifications_for j (snd (sweepLoop_io ps ?st1)) = []"
    using rest Cons.prems len entry by (intro Cons.IH) simp_all
  show ?case unfolding a sweepLoop_io_Cons
    using ih entry ne by (simp add: io_other_ledger io_other_events)
qed

lemma loop_io_present:
  assumes "distinct (map (sid \<circ> fst) ps)" "distinct (map sid (streamers st))"
    "q < length (streamers st)" "sid (streamers st ! q) = sid s"
    "find (\<lambda>(s', r). sid s' = sid s) ps = Some (s, f, e)"
  shows "streamers (fst (sweepLoop_io ps st)) ! q =
           streamers (fst (processStreamer_io f s e st)) ! q \<and>
         lastNotified (fst (sweepLoop_io ps st)) (sid s) =
           lastNotified (fst (processStreamer_io f s e st)) (sid s) \<and>
         notifications_for (sid s) (snd (sweepLoop_io ps st)) =
           notifications_for (sid s) (snd (processStreamer_io f s e st))"
  using assms
proof (induction ps arbitrary: st)
  case Nil
  then show ?case by simp
next
  case (Cons a ps)
  obtain s' f' e' where a: "a = (s', f', e')" by (cases a)
  let ?st1 = "fst (processStreamer_io f' s' e' st)"
  have ids1: "map sid (streamers ?st1) = map sid (streamers st)"
    by (rule ids_processStreamer_io)
  then have len: "length (streamers ?st1) = length (streamers st)"
    by (metis length_map)
  have q1: "q < length (streamers ?st1)" using len Cons.prems by simp
  have d1: "distinct (map sid (streamers ?st1))" using ids1 Cons.prems by simp
  have sid1: "sid (streamers ?st1 ! q) = sid s"
  proof -
    have "sid (streamers ?st1 ! q) = map sid (streamers ?st1) ! q" using q1 by simp
    also have "\<dots> = map sid (streamers st) ! q" by (simp add: ids1)
    also have "\<dots> = sid s" using Cons.prems by simp
    finally show ?thesis .
  qed
  show ?case
  proof (cases "sid s' = sid s")
    case True
    with Cons.prems a have eq: "s' = s" "f' = f" "e' = e" by simp_all
    from Cons.prems a True have "sid s \<notin> set (map (sid \<circ> fst) ps)" by auto
    then have "streamers (fst (sweepLoop_io ps ?st1)) ! q = streamers ?st1 ! q \<and>
         lastNotified (fst (sweepLoop_io ps ?st1)) (sid s) = lastNotified ?st1 (sid s) \<and>
         notifications_for (sid s) (snd (sweepLoop_io ps ?st1)) = []"
      using q1 sid1 by (rule loop_io_absent)
    then show ?thesis unfolding a sweepLoop_io_Cons using eq by simp
  next
    case False
    with Cons.prems a have fnd: "find (\<lambda>(s', r). sid s' = sid s) ps = Some (s, f, e)"
      by simp
    from Cons.prems(1) have dps: "distinct (map (sid \<circ> fst) ps)" by (simp add: comp_def)
    have ih: "streamers (fst (sweepLoop_io ps ?st1)) ! q =
           streamers (fst (processStreamer_io f s e ?st1)) ! q \<and>
         lastNotified (fst (sweepLoop_io ps ?st1)) (sid s) =
           lastNotified (fst (processStreamer_io f s e ?st1)) (sid s) \<and>
         notifications_for (sid s) (snd (sweepLoop_io ps ?st1)) =
           notifications_for (sid s) (snd (processStreamer_io f s e ?st1))"
      using dps d1 q1 sid1 fnd by (rule Cons.IH)
    have entry: "streamers ?st1 ! q = streamers st ! q"
      using Cons.prems False by (simp add: io_other_entry)
    have ledger: "lastNotified ?st1 (sid s) = lastNotified st (sid s)"
      using False by (simp add: io_other_ledger)
    note cong = io_cong [OF d1 Cons.prems(2) q1 Cons.prems(3) entry sid1 ledger, of f e]
    have none: "notifications_for (sid s) (snd (processStreamer_io f' s' e' st)) = []"
      using False by (simp add: io_other_events)
    show ?thesis unfolding a sweepLoop_io_Cons using ih cong none by simp
  qed
qed

lemma sweep_io_entity:
  assumes "distinct (map sid (streamers st))" "q < length (streamers st)"
  shows "streamers (fst (checkAllStreamers_io w st)) ! q =
           streamers (fst (processStreamer_io (fst (w q)) (streamers st ! q) (snd (w q)) st)) ! q"
    and "lastNotified (fst (checkAllStreamers_io w st)) (sid (streamers st ! q)) =
           lastNotified (fst (processStreamer_io (fst (w q)) (streamers st ! q) (snd (w q)) st))
             (sid (streamers st ! q))"
    and "notifications_for (sid (streamers st ! q)) (snd (checkAllStreamers_io w st)) =
           notifications_for (sid (streamers st ! q))
             (snd (processStreamer_io (fst (w q)) (streamers st ! q) (snd (w q)) st))"
proof -
  let ?ss = "streamers st"
  let ?ps = "zip ?ss (map w [0..<length ?ss])"
  have "map (sid \<circ> fst) ?ps = map sid ?ss"
    by (simp add: map_fst_zip flip: map_map)
  with assms have d: "distinct (map (sid \<circ> fst) ?ps)" by simp
  have "find (\<lambda>(s', r). sid s' = sid (?ss ! q)) ?ps = Some (?ss ! q, w q)"
    using assms by (rule find_zip_world)
  then have fnd: "find (\<lambda>(s', r). sid s' = sid (?ss ! q)) ?ps =
      Some (?ss ! q, fst (w q), snd (w q))"
    by simp
  have c: "checkAllStreamers_io w st = sweepLoop_io ?ps st"
    by (simp add: checkAllStreamers_io_def getAllStreamers_def Let_def)
  note r = loop_io_present [OF d assms(1) assms(2) refl fnd]
  show "streamers (fst (checkAllStreamers_io w st)) ! q =
           streamers (fst (processStreamer_io (fst (w q)) (streamers st ! q) (snd (w q)) st)) ! q"
    using r c by simp
  show "lastNotified (fst (checkAllStreamers_io w st)) (sid (streamers st ! q)) =
           lastNotified (fst (processStreamer_io (fst (w q)) (streamers st ! q) (snd (w q)) st))
             (sid (streamers st ! q))"
    using r c by simp
  show "notifications_for (sid (streamers st ! q)) (snd (checkAllStreamers_io w st)) =
           notifications_for (sid (streamers st ! q))
             (snd (processStreamer_io (fst (w q)) (streamers st ! q) (snd (w q)) st))"
    using r c by simp
qed

lemma ids_checkAllStreamers_io:
  "map sid (streamers (fst (checkAllStreamers_io w st))) = map sid (streamers st)"
  by (simp add: checkAllStreamers_io_def Let_def ids_sweepLoop_io)

lemma sweepLoop_io_no_faults:
  "sweepLoop_io (map (\<lambda>(s, e). (s, no_faults, e)) ps) st = sweepLoop ps st"
  by (induction ps arbitrary: st) (auto simp: processStreamer_io_no_faults)

lemma checkAllStreamers_io_no_faults:
  "checkAllStreamers_io (without_faults w) st = checkAllStreamers w st"
proof -
  have "zip (streamers st) (map (without_faults w) [0..<length (streamers st)]) =
      map (\<lambda>(s, e). (s, no_faults, e)) (zip (streamers st) (map w [0..<length (streamers st)]))"
    by (simp add: zip_map2 without_faults_def case_prod_beta)
  then show ?thesis
    by (simp only: checkAllStreamers_io_def checkAllStreamers_def getAllStreamers_def Let_def
        sweepLoop_io_no_faults)
qed

section \<open>The store\<close>

text \<open>
  Claim C5. Whatever sequence of operations is run from the empty store (additions and
  removals, and status updates as well), no two entries of the store have the same
  identifier.
\<close>

theorem store_ids_unique:
  "distinct (map sid (streamers (run_ops ops initStorage)))"
  by (rule distinct_run_ops) (simp add: initStorage_def)

theorem store_ids_unique_witness:
  "distinct (map sid (streamers
     (run_ops [Add alice 0, Add bob 1, Add alice 2, Remove ''456'', Add bob 3] initStorage)))"
  using store_ids_unique [of "[Add alice 0, Add bob 1, Add alice 2, Remove ''456'', Add bob 3]"]
  by simp

text \<open>
  Claim C6. When the identifier is already in the store, \<open>addStreamer\<close> returns false and
  the storage is the one it was given. Otherwise it returns true and the storage differs
  only by one entry appended to the list: the entity, with the identifier, login, display
  name and image of the user and the time of the addition, not live and without
  \<open>currentStream\<close>.
\<close>

theorem addStreamer_contract:
  "(user_id u \<in> set (map sid (streamers st)) \<longrightarrow> addStreamer u t st = (False, st)) \<and>
   (user_id u \<notin> set (map sid (streamers st)) \<longrightarrow>
      addStreamer u t st =
        (True, st\<lparr>streamers := streamers st @
           [\<lparr>sid = user_id u, username = login u, displayName = display_name u,
             profileImageUrl = profile_image_url u, addedAt = t, isLive = False,
             currentStream = None\<rparr>]\<rparr>))"
  by (force simp: addStreamer_def list_ex_iff)

theorem addStreamer_contract_witness:
  "addStreamer alice 5 watching_alice = (False, watching_alice) \<and>
   fst (addStreamer bob 5 watching_alice) \<and>
   map username (streamers (snd (addStreamer bob 5 watching_alice))) = [''alice'', ''bob''] \<and>
   map isLive (streamers (snd (addStreamer bob 5 watching_alice))) = [False, False] \<and>
   map currentStream (streamers (snd (addStreamer bob 5 watching_alice))) = [None, None]"
  using addStreamer_contract [of alice watching_alice 5]
    addStreamer_contract [of bob watching_alice 5]
  by (auto simp: alice_def bob_def watching_alice_def initStorage_def addStreamer_def)

text \<open>
  Claim C7, as the code has it. \<open>removeStreamer\<close> returns true exactly when an entry with
  the identifier was in the store; it keeps the other entries in their order, leaves no
  entry with the identifier, and deletes the ledger entry of the identifier whether or
  not a streamer was found. With the identifier absent the list of streamers is the same,
  and the whole storage is the same when the ledger had no entry for it either.
\<close>

theorem removeStreamer_contract:
  "fst (removeStreamer i st) = (i \<in> set (map sid (streamers st))) \<and>
   streamers (snd (removeStreamer i st)) = filter (\<lambda>s. sid s \<noteq> i) (streamers st) \<and>
   i \<notin> set (map sid (streamers (snd (removeStreamer i st)))) \<and>
   lastNotified (snd (removeStreamer i st)) = (lastNotified st)(i := None) \<and>
   (i \<notin> set (map sid (streamers st)) \<longrightarrow>
      streamers (snd (removeStreamer i st)) = streamers st \<and>
      (lastNotified st i = None \<longrightarrow> snd (removeStreamer i st) = st))"
proof -
  have len: "(length (filter (\<lambda>s. sid s \<noteq> i) (streamers st)) < length (streamers st)) =
      (i \<in> set (map sid (streamers st)))"
  proof
    assume "length (filter (\<lambda>s. sid s \<noteq> i) (streamers st)) < length (streamers st)"
    then have "filter (\<lambda>s. sid s \<noteq> i) (streamers st) \<noteq> streamers st" by auto
    then show "i \<in> set (map sid (streamers st))" by (auto simp: filter_id_conv)
  next
    assume "i \<in> set (map sid (streamers st))"
    then obtain s where "s \<in> set (streamers st)" "\<not> sid s \<noteq> i" by auto
    then show "length (filter (\<lambda>s. sid s \<noteq> i) (streamers st)) < length (streamers st)"
      by (rule length_filter_less)
  qed
  have same: "i \<notin> set (map sid (streamers st)) \<Longrightarrow>
      filter (\<lambda>s. sid s \<noteq> i) (streamers st) = streamers st"
    by (auto simp: filter_id_conv)
  have ledger: "(if lastNotified st i \<noteq> None then (lastNotified st)(i := None) else lastNotified st) =
      (lastNotified st)(i := None)"
    by auto
  have idem: "lastNotified st i = None \<Longrightarrow> (lastNotified st)(i := None) = lastNotified st"
    by (rule ext) simp
  have gone: "i \<notin> set (map sid (filter (\<lambda>s. sid s \<noteq> i) (streamers st)))"
    by auto
  show ?thesis
    unfolding removeStreamer_def Let_def fst_conv snd_conv ledger len
    using gone by (simp add: same idem)
qed

theorem removeStreamer_contract_witness:
  "fst (removeStreamer ''123'' watching_both) \<and>
   map sid (streamers (snd (removeStreamer ''123'' watching_both))) = [''456''] \<and>
   snd (removeStreamer ''123'' watching_alice) = initStorage \<and>
   snd (removeStreamer ''456'' watching_alice) = watching_alice"
  using removeStreamer_contract [of "''123''" watching_both]
    removeStreamer_contract [of "''123''" watching_alice]
    removeStreamer_contract [of "''456''" watching_alice]
  by (simp add: sample_defs)

text \<open>
  The ledger does change when the identifier is absent from the list but has a ledger
  entry: the storage holds no streamer and an entry for 123, the removal of 123
  returns false and the entry is gone.
\<close>

theorem removeStreamer_orphan_entry_counterexample:
  "''123'' \<notin> set (map sid (streamers (markNotified ''123'' 5 initStorage))) \<and>
   fst (removeStreamer ''123'' (markNotified ''123'' 5 initStorage)) = False \<and>
   lastNotified (snd (removeStreamer ''123'' (markNotified ''123'' 5 initStorage))) ''123''
     \<noteq> lastNotified (markNotified ''123'' 5 initStorage) ''123''"
  by (simp add: removeStreamer_def markNotified_def initStorage_def)

text \<open>
  Claim C8, as the code has it. After any sequence of operations from the empty store, an
  entry that has a \<open>currentStream\<close> is live. When every status update that sets the flag
  to true passes stream information, an entry has a \<open>currentStream\<close> if and only if it is
  live; the updates with the flag false may pass stream information or not.
\<close>

theorem metadata_tracks_live_flag:
  "metadata_only_live (run_ops ops initStorage) \<and>
   (list_all metadata_when_live ops \<longrightarrow> metadata_iff_live (run_ops ops initStorage))"
proof
  show "metadata_only_live (run_ops ops initStorage)"
    by (rule only_live_run_ops) (simp add: metadata_only_live_def initStorage_def)
  have "metadata_iff_live initStorage"
    by (simp add: metadata_iff_live_def initStorage_def)
  then show "list_all metadata_when_live ops \<longrightarrow> metadata_iff_live (run_ops ops initStorage)"
    by (simp add: iff_live_run_ops)
qed

theorem metadata_tracks_live_flag_witness:
  "list_all metadata_when_live [Add alice 0, Add bob 1,
      SetLiveState ''456'' False (Some (session (Some 3))), SetLiveState ''123'' False None,
      Remove ''456'', SetLiveState ''123'' True (Some (session (Some 7)))] \<and>
   metadata_iff_live (run_ops [Add alice 0, Add bob 1,
      SetLiveState ''456'' False (Some (session (Some 3))), SetLiveState ''123'' False None,
      Remove ''456'', SetLiveState ''123'' True (Some (session (Some 7)))] initStorage) \<and>
   metadata_only_live (run_ops [Add alice 0, Add bob 1,
      SetLiveState ''456'' False (Some (session (Some 3))), SetLiveState ''123'' False None,
      Remove ''456'', SetLiveState ''123'' True (Some (session (Some 7)))] initStorage)"
  using metadata_tracks_live_flag [of "[Add alice 0, Add bob 1,
      SetLiveState ''456'' False (Some (session (Some 3))), SetLiveState ''123'' False None,
      Remove ''456'', SetLiveState ''123'' True (Some (session (Some 7)))]"]
  by simp

text \<open>
  A status update with the flag true and no stream information leaves a live entry
  without \<open>currentStream\<close>.
\<close>

theorem live_without_metadata_counterexample:
  "\<not> metadata_iff_live (run_ops [Add alice 0, SetLiveState ''123'' True None] initStorage)"
  by code_simp

section \<open>The notification policy\<close>

text \<open>
  Claim C4, as the code has it. When a streamer that was not live is seen live with a stream
  whose start is missing, \<open>shouldNotify\<close> answers true exactly when the ledger has no
  entry for the identifier, and the step notifies exactly then.
\<close>

theorem missing_start_policy:
  assumes "liveCheck e = Inr (Some info)" and "started_at info = None" and "\<not> isLive s"
  shows "shouldNotify (sid s) (started_at info) st = (lastNotified st (sid s) = None) \<and>
         (notifications_for (sid s) (snd (processStreamer s e st)) \<noteq> []) =
           (lastNotified st (sid s) = None)"
  using assms
  by (simp add: step_self_events shouldNotify_def split: option.splits)

theorem missing_start_policy_witness:
  "shouldNotify ''123'' None watching_alice \<and>
   notifications_for ''123''
     (snd (processStreamer (streamers watching_alice ! 0) (goes_live None 9) watching_alice)) \<noteq> []"
  using missing_start_policy [where e = "goes_live None 9" and info = "session None"
      and s = "streamers watching_alice ! 0" and st = watching_alice]
  by (simp add: sample_defs)

text \<open>
  With a ledger entry for 123, a live stream without a start is not notified.
\<close>

theorem missing_start_suppressed_counterexample:
  "lastNotified (markNotified ''123'' 5 watching_alice) ''123'' = Some 5 \<and>
   \<not> isLive (streamers watching_alice ! 0) \<and>
   \<not> shouldNotify ''123'' None (markNotified ''123'' 5 watching_alice) \<and>
   snd (processStreamer (streamers watching_alice ! 0) (goes_live None 9)
     (markNotified ''123'' 5 watching_alice)) = []"
  by code_simp

text \<open>
  Claim C10. \<open>sendLiveNotification\<close> returns for every outcome of the guild enumeration,
  of the channel lookups and of the sends. Hence, whenever a streamer that was not live is
  seen live and \<open>shouldNotify\<close> answers true, the step logs one notification and the
  ledger entry of the identifier is the clock reading of \<open>markNotified\<close>, whatever
  happened in the guilds.
\<close>

theorem dispatch_never_rejects:
  "(\<exists>ds. sendLiveNotification g s info = Inr ds) \<and>
   (liveCheck e = Inr (Some info) \<and> \<not> isLive s \<and> shouldNotify (sid s) (started_at info) st \<longrightarrow>
      lastNotified (fst (processStreamer s e st)) (sid s) = Some (clock e) \<and>
      (\<exists>ds. snd (processStreamer s e st) = [Notified (sid s) ds]))"
  by (simp add: sendLiveNotification_Inr step_self_ledger processStreamer_cases)

theorem dispatch_never_rejects_witness:
  "snd (processStreamer (streamers watching_alice ! 0) (unreachable (Some 1000) 1100)
     watching_alice) =
     [Notified ''123'' [SendingFailed ''home'' DiscordError, SendingFailed ''away'' TypeError]] \<and>
   lastNotified (fst (processStreamer (streamers watching_alice ! 0) (unreachable (Some 1000) 1100)
     watching_alice)) ''123'' = Some 1100"
proof -
  have ev: "snd (processStreamer (streamers watching_alice ! 0) (unreachable (Some 1000) 1100)
     watching_alice) =
     [Notified ''123'' [SendingFailed ''home'' DiscordError, SendingFailed ''away'' TypeError]]"
    by code_simp
  have due: "shouldNotify ''123'' (Some 1000) watching_alice" by code_simp
  show ?thesis
    using dispatch_never_rejects [where e = "unreachable (Some 1000) 1100"
        and info = "session (Some 1000)" and s = "streamers watching_alice ! 0"
        and st = watching_alice] ev due
    by (simp add: sample_defs)
qed

section \<open>Sweeps\<close>

text \<open>
  Claim C2, as the code has it. In a store with distinct identifiers, when a sweep sees a
  streamer that was not live go live with session start \<open>S\<close> and a notification is
  emitted for it, the ledger entry of its identifier after the sweep is the reading of the
  local clock taken by \<open>markNotified\<close>, whatever \<open>S\<close> is.
\<close>

theorem ledger_records_clock:
  assumes "distinct (map sid (streamers st))" and "p < length (streamers st)"
    and "liveCheck (w p) = Inr (Some info)" and "started_at info = S"
    and "\<not> isLive (streamers st ! p)"
    and "notifications_for (sid (streamers st ! p)) (snd (checkAllStreamers w st)) \<noteq> []"
  shows "lastNotified (fst (checkAllStreamers w st)) (sid (streamers st ! p)) = Some (clock (w p))"
proof -
  note s = sweep_live [where w = w, OF assms(1,2,3)]
  have "shouldNotify (sid (streamers st ! p)) (started_at info) st"
  proof (rule ccontr)
    assume "\<not> shouldNotify (sid (streamers st ! p)) (started_at info) st"
    with s have "length (notifications_for (sid (streamers st ! p)) (snd (checkAllStreamers w st))) = 0"
      by simp
    with assms(6) show False by simp
  qed
  with s assms(5) show ?thesis by simp
qed

theorem ledger_records_clock_witness:
  "lastNotified (fst (checkAllStreamers (everywhere (goes_live (Some 1704067200000) 1704067500000))
     watching_alice)) ''123'' = Some 1704067500000"
proof -
  have n: "notifications_for (sid (streamers watching_alice ! 0))
      (snd (checkAllStreamers (everywhere (goes_live (Some 1704067200000) 1704067500000))
         watching_alice)) \<noteq> []"
    by code_simp
  show ?thesis
    using ledger_records_clock [where st = watching_alice and p = 0
        and w = "everywhere (goes_live (Some 1704067200000) 1704067500000)"
        and info = "session (Some 1704067200000)" and S = "Some 1704067200000",
        OF _ _ _ _ _ n]
    by (simp add: sample_defs)
qed

text \<open>
  The session of the scenario starts at 2024-01-01T00:00:00Z (1704067200000) and is seen
  five minutes later: the ledger holds the later instant, not the session start.
\<close>

theorem ledger_not_session_start_counterexample:
  "\<not> isLive (streamers watching_alice ! 0) \<and>
   notifications_for ''123''
     (snd (checkAllStreamers (everywhere (goes_live (Some 1704067200000) 1704067500000))
        watching_alice)) \<noteq> [] \<and>
   lastNotified (fst (checkAllStreamers (everywhere (goes_live (Some 1704067200000) 1704067500000))
     watching_alice)) ''123'' \<noteq> Some 1704067200000"
  by code_simp

text \<open>
  Claim C1, as the code has it. In a store with distinct identifiers, take a streamer for
  which the policy permits a notification of a session starting at \<open>T1\<close> (no ledger entry,
  or one earlier than \<open>T1\<close>), and four sweeps that see it offline, live with start
  \<open>T1\<close>, offline, live with start \<open>T2\<close>. The first session is notified. The second one
  is notified exactly when \<open>T2\<close> is later than the clock reading recorded at the first
  notification: then two notifications fire, otherwise one.
\<close>

theorem two_sessions_notified:
  assumes "distinct (map sid (streamers st))" and "p < length (streamers st)"
    and "sid (streamers st ! p) = i"
    and "liveCheck (w1 p) = Inr None"
    and "liveCheck (w2 p) = Inr (Some a)" and "started_at a = Some T1"
    and "liveCheck (w3 p) = Inr None"
    and "liveCheck (w4 p) = Inr (Some b)" and "started_at b = Some T2"
    and "shouldNotify i (Some T1) st"
  shows "length (notifications_for i (snd (run_sweeps [w1, w2, w3, w4] st))) =
           (if clock (w2 p) < T2 then 2 else 1)"
proof -
  let ?st1 = "fst (checkAllStreamers w1 st)"
  let ?st2 = "fst (checkAllStreamers w2 ?st1)"
  let ?st3 = "fst (checkAllStreamers w3 ?st2)"
  note k1 = sweep_keeps_position [OF assms(1,2), of w1]
  from k1 have d1: "distinct (map sid (streamers ?st1))" and p1: "p < length (streamers ?st1)"
    and i1: "sid (streamers ?st1 ! p) = i" using assms(3) by simp_all
  note k2 = sweep_keeps_position [OF d1 p1, of w2]
  from k2 have d2: "distinct (map sid (streamers ?st2))" and p2: "p < length (streamers ?st2)"
    and i2: "sid (streamers ?st2 ! p) = i" using i1 by simp_all
  note k3 = sweep_keeps_position [OF d2 p2, of w3]
  from k3 have d3: "distinct (map sid (streamers ?st3))" and p3: "p < length (streamers ?st3)"
    and i3: "sid (streamers ?st3 ! p) = i" using i2 by simp_all
  note s1 = sweep_offline [where w = w1, OF assms(1,2,4)]
  note s2 = sweep_live [where w = w2, OF d1 p1 assms(5)]
  note s3 = sweep_offline [where w = w3, OF d2 p2 assms(7)]
  note s4 = sweep_live [where w = w4, OF d3 p3 assms(8)]
  have l1: "lastNotified ?st1 i = lastNotified st i" and off1: "\<not> isLive (streamers ?st1 ! p)"
    and n1: "notifications_for i (snd (checkAllStreamers w1 st)) = []"
    using s1 assms(3) by simp_all
  have due: "shouldNotify i (started_at a) ?st1"
    using assms(6,10) shouldNotify_cong [OF l1, of "Some T1"] by simp
  have l2: "lastNotified ?st2 i = Some (clock (w2 p))"
    and n2: "length (notifications_for i (snd (checkAllStreamers w2 ?st1))) = 1"
    using s2 i1 off1 due by simp_all
  have l3: "lastNotified ?st3 i = Some (clock (w2 p))" and off3: "\<not> isLive (streamers ?st3 ! p)"
    and n3: "notifications_for i (snd (checkAllStreamers w3 ?st2)) = []"
    using s3 i2 l2 by simp_all
  have due4: "shouldNotify i (started_at b) ?st3 = (clock (w2 p) < T2)"
    using assms(9) l3 by (simp add: shouldNotify_def)
  have n4: "length (notifications_for i (snd (checkAllStreamers w4 ?st3))) =
      (if clock (w2 p) < T2 then 1 else 0)"
    using s4 i3 off3 due4 by simp
  show ?thesis
    by (simp add: run_sweeps_Cons n1 n2 n3 n4 del: run_sweeps.simps(2))
qed

theorem two_sessions_notified_witness:
  "length (notifications_for ''123'' (snd (run_sweeps
     [everywhere offline, everywhere (goes_live (Some 1000) 1100), everywhere offline,
      everywhere (goes_live (Some 1500) 1600)]
     watching_alice))) = 2"
proof -
  have due: "shouldNotify ''123'' (Some 1000) watching_alice" by code_simp
  show ?thesis
    using two_sessions_notified [where st = watching_alice and p = 0 and i = "''123''"
      and ?w1.0 = "everywhere offline" and ?w2.0 = "everywhere (goes_live (Some 1000) 1100)"
      and ?w3.0 = "everywhere offline" and ?w4.0 = "everywhere (goes_live (Some 1500) 1600)"
      and a = "session (Some 1000)" and b = "session (Some 1500)"
      and ?T1.0 = 1000 and ?T2.0 = 1500] due
    by (simp add: sample_defs)
qed

text \<open>
  A local clock that runs ahead: the first session (start 1000) is recorded at 1700, and
  the second session, which starts at 1500, is not notified.
\<close>

theorem second_session_suppressed_counterexample:
  "(1000::int) < 1500 \<and>
   length (notifications_for ''123'' (snd (run_sweeps
     [everywhere offline, everywhere (goes_live (Some 1000) 1700), everywhere offline,
      everywhere (goes_live (Some 1500) 2300)]
     watching_alice))) \<noteq> 2"
  by code_simp

text \<open>
  Claim C3, as the code has it. In a store with distinct identifiers, take a streamer for
  which the policy permits a notification of a session starting at \<open>T1\<close>, and five sweeps
  that see it offline, live, live, offline, live, each time with start \<open>T1\<close>. The first
  sweep notifies nothing, the second one notifies once, and the reappearance in the fifth
  is suppressed exactly when the clock reading recorded at the notification is not earlier
  than \<open>T1\<close>: then one notification fires in all, otherwise two.
\<close>

theorem same_session_reappearing:
  assumes "distinct (map sid (streamers st))" and "p < length (streamers st)"
    and "sid (streamers st ! p) = i"
    and "liveCheck (w1 p) = Inr None"
    and "liveCheck (w2 p) = Inr (Some a)" and "started_at a = Some T1"
    and "liveCheck (w3 p) = Inr (Some b)" and "started_at b = Some T1"
    and "liveCheck (w4 p) = Inr None"
    and "liveCheck (w5 p) = Inr (Some c)" and "started_at c = Some T1"
    and "shouldNotify i (Some T1) st"
  shows "notifications_for i (snd (checkAllStreamers w1 st)) = [] \<and>
         length (notifications_for i (snd (checkAllStreamers w2 (fst (checkAllStreamers w1 st))))) = 1 \<and>
         length (notifications_for i (snd (run_sweeps [w1, w2, w3, w4, w5] st))) =
           (if clock (w2 p) < T1 then 2 else 1)"
proof -
  let ?st1 = "fst (checkAllStreamers w1 st)"
  let ?st2 = "fst (checkAllStreamers w2 ?st1)"
  let ?st3 = "fst (checkAllStreamers w3 ?st2)"
  let ?st4 = "fst (checkAllStreamers w4 ?st3)"
  note k1 = sweep_keeps_position [OF assms(1,2), of w1]
  from k1 have d1: "distinct (map sid (streamers ?st1))" and p1: "p < length (streamers ?st1)"
    and i1: "sid (streamers ?st1 ! p) = i" using assms(3) by simp_all
  note k2 = sweep_keeps_position [OF d1 p1, of w2]
  from k2 have d2: "distinct (map sid (streamers ?st2))" and p2: "p < length (streamers ?st2)"
    and i2: "sid (streamers ?st2 ! p) = i" using i1 by simp_all
  note k3 = sweep_keeps_position [OF d2 p2, of w3]
  from k3 have d3: "distinct (map sid (streamers ?st3))" and p3: "p < length (streamers ?st3)"
    and i3: "sid (streamers ?st3 ! p) = i" using i2 by simp_all
  note k4 = sweep_keeps_position [OF d3 p3, of w4]
  from k4 have d4: "distinct (map sid (streamers ?st4))" and p4: "p < length (streamers ?st4)"
    and i4: "sid (streamers ?st4 ! p) = i" using i3 by simp_all
  note s1 = sweep_offline [where w = w1, OF assms(1,2,4)]
  note s2 = sweep_live [where w = w2, OF d1 p1 assms(5)]
  note s3 = sweep_live [where w = w3, OF d2 p2 assms(7)]
  note s4 = sweep_offline [where w = w4, OF d3 p3 assms(9)]
  note s5 = sweep_live [where w = w5, OF d4 p4 assms(10)]
  have l1: "lastNotified ?st1 i = lastNotified st i" and off1: "\<not> isLive (streamers ?st1 ! p)"
    and n1: "notifications_for i (snd (checkAllStreamers w1 st)) = []"
    using s1 assms(3) by simp_all
  have due: "shouldNotify i (started_at a) ?st1"
    using assms(6,12) shouldNotify_cong [OF l1, of "Some T1"] by simp
  have l2: "lastNotified ?st2 i = Some (clock (w2 p))" and on2: "isLive (streamers ?st2 ! p)"
    and n2: "length (notifications_for i (snd (checkAllStreamers w2 ?st1))) = 1"
    using s2 i1 off1 due by simp_all
  have l3: "lastNotified ?st3 i = Some (clock (w2 p))"
    and n3: "length (notifications_for i (snd (checkAllStreamers w3 ?st2))) = 0"
    using s3 i2 on2 l2 by simp_all
  have l4: "lastNotified ?st4 i = Some (clock (w2 p))" and off4: "\<not> isLive (streamers ?st4 ! p)"
    and n4: "notifications_for i (snd (checkAllStreamers w4 ?st3)) = []"
    using s4 i3 l3 by simp_all
  have due5: "shouldNotify i (started_at c) ?st4 = (clock (w2 p) < T1)"
    using assms(11) l4 by (simp add: shouldNotify_def)
  have n5: "length (notifications_for i (snd (checkAllStreamers w5 ?st4))) =
      (if clock (w2 p) < T1 then 1 else 0)"
    using s5 i4 off4 due5 by simp
  from n3 have n3': "notifications_for i (snd (checkAllStreamers w3 ?st2)) = []" by simp
  show ?thesis
    by (simp add: run_sweeps_Cons n1 n2 n3' n4 n5 del: run_sweeps.simps(2))
qed

theorem same_session_reappearing_witness:
  "length (notifications_for ''123''
     (snd (checkAllStreamers (everywhere (goes_live (Some 1000) 1100))
        (fst (checkAllStreamers (everywhere offline) watching_alice))))) = 1 \<and>
   length (notifications_for ''123'' (snd (run_sweeps
     [everywhere offline, everywhere (goes_live (Some 1000) 1100),
      everywhere (goes_live (Some 1000) 1400), everywhere offline,
      everywhere (goes_live (Some 1000) 2000)]
     watching_alice))) = 1"
proof -
  have due: "shouldNotify ''123'' (Some 1000) watching_alice" by code_simp
  show ?thesis
    using same_session_reappearing [where st = watching_alice and p = 0 and i = "''123''"
      and ?w1.0 = "everywhere offline" and ?w2.0 = "everywhere (goes_live (Some 1000) 1100)"
      and ?w3.0 = "everywhere (goes_live (Some 1000) 1400)" and ?w4.0 = "everywhere offline"
      and ?w5.0 = "everywhere (goes_live (Some 1000) 2000)"
      and a = "session (Some 1000)" and b = "session (Some 1000)" and c = "session (Some 1000)"
      and ?T1.0 = 1000] due
    by (simp add: sample_defs)
qed

text \<open>
  A local clock that runs behind: the session that starts at 1000 is recorded at 500, and
  its reappearance is notified a second time.
\<close>

theorem same_session_renotified_counterexample:
  "length (notifications_for ''123'' (snd (run_sweeps
     [everywhere offline, everywhere (goes_live (Some 1000) 500),
      everywhere (goes_live (Some 1000) 800), everywhere offline,
      everywhere (goes_live (Some 1000) 1400)]
     watching_alice))) \<noteq> 1"
  by code_simp

text \<open>
  Claim C9, as the code has it. Take a sweep over a store with distinct identifiers and a
  streamer at position \<open>p\<close>. Whatever happens to it, every other streamer is processed:
  its entry, its ledger entry and its notifications after the sweep are those of its own
  step run on the storage from before the sweep, and its status is written whenever its
  own fetch and status update return. When the fetch or the status update of \<open>p\<close>
  throws, its entry and its ledger entry are what they were before the sweep and nothing
  is notified for it. When they return, its entry holds the new status, also when a later
  call of its step (\<open>shouldNotify\<close> or \<open>markNotified\<close>) throws; the ledger entry is then
  what it was.
\<close>

theorem sweep_failure_isolated:
  assumes "distinct (map sid (streamers st))" and "p < length (streamers st)"
  shows "(\<forall>q<length (streamers st). q \<noteq> p \<longrightarrow>
            streamers (fst (checkAllStreamers_io w st)) ! q =
              streamers (fst (processStreamer_io (fst (w q)) (streamers st ! q) (snd (w q)) st)) ! q \<and>
            lastNotified (fst (checkAllStreamers_io w st)) (sid (streamers st ! q)) =
              lastNotified (fst (processStreamer_io (fst (w q)) (streamers st ! q) (snd (w q)) st))
                (sid (streamers st ! q)) \<and>
            notifications_for (sid (streamers st ! q)) (snd (checkAllStreamers_io w st)) =
              notifications_for (sid (streamers st ! q))
                (snd (processStreamer_io (fst (w q)) (streamers st ! q) (snd (w q)) st)) \<and>
            (\<forall>x. liveCheck (snd (w q)) = Inr x \<and> updateThrows (fst (w q)) = None \<longrightarrow>
               streamers (fst (checkAllStreamers_io w st)) ! q =
                 setStatus (x \<noteq> None) x (streamers st ! q))) \<and>
         ((\<exists>err. liveCheck (snd (w p)) = Inl err) \<or> updateThrows (fst (w p)) \<noteq> None \<longrightarrow>
            streamers (fst (checkAllStreamers_io w st)) ! p = streamers st ! p \<and>
            lastNotified (fst (checkAllStreamers_io w st)) (sid (streamers st ! p)) =
              lastNotified st (sid (streamers st ! p)) \<and>
            notifications_for (sid (streamers st ! p)) (snd (checkAllStreamers_io w st)) = []) \<and>
         (\<forall>x. liveCheck (snd (w p)) = Inr x \<and> updateThrows (fst (w p)) = None \<longrightarrow>
            streamers (fst (checkAllStreamers_io w st)) ! p =
              setStatus (x \<noteq> None) x (streamers st ! p) \<and>
            (shouldNotifyThrows (fst (w p)) \<noteq> None \<or> markNotifiedThrows (fst (w p)) \<noteq> None \<longrightarrow>
               lastNotified (fst (checkAllStreamers_io w st)) (sid (streamers st ! p)) =
                 lastNotified st (sid (streamers st ! p))))"
proof -
  have entry: "\<And>q x. q < length (streamers st) \<Longrightarrow> liveCheck (snd (w q)) = Inr x \<Longrightarrow>
      updateThrows (fst (w q)) = None \<Longrightarrow>
      streamers (fst (checkAllStreamers_io w st)) ! q = setStatus (x \<noteq> None) x (streamers st ! q)"
    using assms(1) by (simp add: sweep_io_entity(1) io_self_entry)
  have others: "\<forall>q<length (streamers st). q \<noteq> p \<longrightarrow>
            streamers (fst (checkAllStreamers_io w st)) ! q =
              streamers (fst (processStreamer_io (fst (w q)) (streamers st ! q) (snd (w q)) st)) ! q \<and>
            lastNotified (fst (checkAllStreamers_io w st)) (sid (streamers st ! q)) =
              lastNotified (fst (processStreamer_io (fst (w q)) (streamers st ! q) (snd (w q)) st))
                (sid (streamers st ! q)) \<and>
            notifications_for (sid (streamers st ! q)) (snd (checkAllStreamers_io w st)) =
              notifications_for (sid (streamers st ! q))
                (snd (processStreamer_io (fst (w q)) (streamers st ! q) (snd (w q)) st)) \<and>
            (\<forall>x. liveCheck (snd (w q)) = Inr x \<and> updateThrows (fst (w q)) = None \<longrightarrow>
               streamers (fst (checkAllStreamers_io w st)) ! q =
                 setStatus (x \<noteq> None) x (streamers st ! q))"
    using sweep_io_entity [OF assms(1)] entry by simp
  have early: "(\<exists>err. liveCheck (snd (w p)) = Inl err) \<or> updateThrows (fst (w p)) \<noteq> None \<longrightarrow>
            streamers (fst (checkAllStreamers_io w st)) ! p = streamers st ! p \<and>
            lastNotified (fst (checkAllStreamers_io w st)) (sid (streamers st ! p)) =
              lastNotified st (sid (streamers st ! p)) \<and>
            notifications_for (sid (streamers st ! p)) (snd (checkAllStreamers_io w st)) = []"
    using assms
    by (auto simp: sweep_io_entity io_self_entry io_self_ledger io_self_events
        split: sum.splits option.splits)
  have late: "\<forall>x. liveCheck (snd (w p)) = Inr x \<and> updateThrows (fst (w p)) = None \<longrightarrow>
            streamers (fst (checkAllStreamers_io w st)) ! p =
              setStatus (x \<noteq> None) x (streamers st ! p) \<and>
            (shouldNotifyThrows (fst (w p)) \<noteq> None \<or> markNotifiedThrows (fst (w p)) \<noteq> None \<longrightarrow>
               lastNotified (fst (checkAllStreamers_io w st)) (sid (streamers st ! p)) =
                 lastNotified st (sid (streamers st ! p)))"
    using assms entry [OF assms(2)]
    by (auto simp: sweep_io_entity(2) io_self_ledger split: sum.splits option.splits)
  from others early late show ?thesis by blast
qed

theorem sweep_failure_isolated_witness:
  "liveCheck (snd (fetch_fails_first (goes_live (Some 1000) 1100) 0)) = Inl FetchError \<and>
   streamers (fst (checkAllStreamers_io (fetch_fails_first (goes_live (Some 1000) 1100))
     watching_both)) ! 0 = streamers watching_both ! 0 \<and>
   streamers (fst (checkAllStreamers_io (fetch_fails_first (goes_live (Some 1000) 1100))
     watching_both)) ! 1 =
     setStatus True (Some (session (Some 1000))) (streamers watching_both ! 1)"
proof -
  let ?w = "fetch_fails_first (goes_live (Some 1000) 1100)"
  let ?st' = "fst (checkAllStreamers_io ?w watching_both)"
  have d: "distinct (map sid (streamers watching_both))" by (simp add: sample_defs)
  have p: "0 < length (streamers watching_both)" by (simp add: sample_defs)
  have q: "1 < length (streamers watching_both)" by (simp add: sample_defs)
  have failed: "liveCheck (snd (?w 0)) = Inl FetchError"
    by (simp add: fetch_fails_first_def failing_def)
  have fetched: "liveCheck (snd (?w 1)) = Inr (Some (session (Some 1000))) \<and>
      updateThrows (fst (?w 1)) = None"
    by (simp add: fetch_fails_first_def goes_live_def no_faults_def)
  note t = sweep_failure_isolated [OF d p, of ?w]
  from t failed have a: "streamers ?st' ! 0 = streamers watching_both ! 0" by blast
  from t have "\<forall>q<length (streamers watching_both). q \<noteq> 0 \<longrightarrow>
      (\<forall>x. liveCheck (snd (?w q)) = Inr x \<and> updateThrows (fst (?w q)) = None \<longrightarrow>
         streamers ?st' ! q = setStatus (x \<noteq> None) x (streamers watching_both ! q))"
    by blast
  with q fetched have "streamers ?st' ! 1 =
      setStatus (Some (session (Some 1000)) \<noteq> None) (Some (session (Some 1000)))
        (streamers watching_both ! 1)"
    by (metis zero_neq_one)
  then have b: "streamers ?st' ! 1 =
      setStatus True (Some (session (Some 1000))) (streamers watching_both ! 1)"
    by simp
  from failed a b show ?thesis by simp
qed

text \<open>
  The read in \<open>shouldNotify\<close> throws for the first streamer, after line 483 has written
  its status: the failure is logged, the second streamer is notified, and the stored
  entry of the first one has changed to live.
\<close>

theorem status_written_before_failure_counterexample:
  "shouldNotifyThrows (fst (policy_read_fails_first (goes_live (Some 1000) 1100) 0)) =
     Some StorageError \<and>
   snd (checkAllStreamers_io (policy_read_fails_first (goes_live (Some 1000) 1100)) watching_both) =
     [CheckError ''Alice'' StorageError, Notified ''456'' [Sent ''home'']] \<and>
   streamers (fst (checkAllStreamers_io (policy_read_fails_first (goes_live (Some 1000) 1100))
     watching_both)) ! 0 \<noteq> streamers watching_both ! 0 \<and>
   isLive (streamers (fst (checkAllStreamers_io (policy_read_fails_first (goes_live (Some 1000) 1100))
     watching_both)) ! 0)"
  by code_simp

end
